theory Spec2Isabelle
  imports Complex_Main
begin

section \<open>Shared vocabulary\<close>

text \<open>
  The four lock classes of the repository run on a single-threaded event loop: every
  method body and every closure runs to completion (or to its next \<^verbatim>\<open>await\<close>) before
  anything else runs. Each such synchronous run is one function of the model, from the
  object's fields before to the fields after.

  A pending acquisition is the closure \<^verbatim>\<open>tryAcquire\<close>, which captures the \<^verbatim>\<open>resolve\<close> of the
  promise that one \<^verbatim>\<open>acquire()\<close> call returned. The model names such a closure by a
  number, the identity of the call (the caller): a queue of closures is a list of callers,
  and calling the closure is calling the \<^verbatim>\<open>tryAcquire\<close> function of the model at that
  caller. Beside the new fields, every operation returns the callers whose promise it
  resolved, in the order of the \<^verbatim>\<open>resolve\<close> calls: those are the acquisitions it granted.
\<close>

type_synonym caller = nat

section \<open>SimpleLock (src/simpleLock.ts)\<close>

text \<open>
  \<^verbatim>\<open>private locked: boolean = false; private readonly maxWaitTime: number\<close>.
  The field \<open>locked\<close> is named \<open>sl_locked\<close> here, since QueueLock has a field of the
  same name. The console is the list of the lines printed so far. The delay and the
  thread ids are natural numbers, as every caller in the repository passes them
  (\<^verbatim>\<open>new SimpleLock(2000)\<close>, \<^verbatim>\<open>executeDemo(1)\<close> to \<^verbatim>\<open>executeDemo(5)\<close>).
\<close>

record SimpleLock =
  sl_locked :: bool
  maxWaitTime :: nat

type_synonym console = "string list"

text \<open>The decimal digits of a thread id, as the template literal prints it.\<close>

fun show_nat :: "nat \<Rightarrow> string" where
  "show_nat n =
     (if n < 10 then [''0123456789'' ! n]
      else show_nat (n div 10) @ [''0123456789'' ! (n mod 10)])"

declare show_nat.simps [simp del]

definition SimpleLock_new :: "nat \<Rightarrow> SimpleLock" where
  "SimpleLock_new w = \<lparr>sl_locked = False, maxWaitTime = w\<rparr>"


text \<open>\<^verbatim>\<open>release(threadId)\<close>: \<^verbatim>\<open>this.locked = false\<close>, then the log line.\<close>

definition SimpleLock_release :: "nat \<Rightarrow> SimpleLock \<times> console \<Rightarrow> SimpleLock \<times> console" where
  "SimpleLock_release threadId st =
     (case st of (l, out) \<Rightarrow>
        (l\<lparr>sl_locked := False\<rparr>,
         out @ [''Thread '' @ show_nat threadId @ '' - Released lock'']))"

section \<open>QueueLock (src/queueLock.ts)\<close>

text \<open>
  \<^verbatim>\<open>private locked: boolean = false; private queue: (() => void)[] = []\<close>.
\<close>

record QueueLock =
  ql_locked :: bool
  ql_queue :: "caller list"

definition QueueLock_new :: QueueLock where
  "QueueLock_new = \<lparr>ql_locked = False, ql_queue = []\<rparr>"

text \<open>
  The closure \<^verbatim>\<open>tryAcquire\<close> of caller \<open>c\<close>: when the lock is free it takes it and
  resolves the promise of \<open>c\<close> with the release function; otherwise it pushes itself
  onto the queue.
\<close>

definition QueueLock_tryAcquire :: "caller \<Rightarrow> QueueLock \<Rightarrow> QueueLock \<times> caller list" where
  "QueueLock_tryAcquire c l =
     (if \<not> ql_locked l then (l\<lparr>ql_locked := True\<rparr>, [c])
      else (l\<lparr>ql_queue := ql_queue l @ [c]\<rparr>, []))"

text \<open>\<^verbatim>\<open>acquire()\<close> builds the closure and calls it once.\<close>

definition QueueLock_acquire :: "caller \<Rightarrow> QueueLock \<Rightarrow> QueueLock \<times> caller list" where
  "QueueLock_acquire c l = QueueLock_tryAcquire c l"

text \<open>
  The release function handed to a caller: \<^verbatim>\<open>this.locked = false\<close>, then, when the queue
  is not empty, \<^verbatim>\<open>queue.shift()\<close> and a call of the closure taken (\<^verbatim>\<open>next?.()\<close> calls
  nothing when \<^verbatim>\<open>shift\<close> gave \<^verbatim>\<open>undefined\<close>). The function reads no variable of the
  acquisition that created it, so every release function of one lock is the same function.
\<close>

definition QueueLock_release :: "QueueLock \<Rightarrow> QueueLock \<times> caller list" where
  "QueueLock_release l =
     (let l1 = l\<lparr>ql_locked := False\<rparr> in
      if length (ql_queue l1) > 0 then
        (case ql_queue l1 of
           [] \<Rightarrow> (l1, [])
         | nxt # rest \<Rightarrow> QueueLock_tryAcquire nxt (l1\<lparr>ql_queue := rest\<rparr>))
      else (l1, []))"

section \<open>SemaphoreLock (src/queueLock.ts, second class)\<close>

text \<open>
  The constructor's argument is a JavaScript number. A finite double is a rational; the
  three other values are kept apart, since \<^verbatim>\<open>Number.isInteger\<close> and \<^verbatim>\<open><\<close> treat them
  specially.
\<close>

datatype number = Finite rat | NaN | PosInfinity | NegInfinity

fun Number_isInteger :: "number \<Rightarrow> bool" where
  "Number_isInteger (Finite q) = (of_int \<lfloor>q\<rfloor> = q)"
| "Number_isInteger NaN = False"
| "Number_isInteger PosInfinity = False"
| "Number_isInteger NegInfinity = False"

text \<open>The operator \<^verbatim>\<open><\<close> on two numbers: false whenever an operand is NaN.\<close>

fun number_less :: "number \<Rightarrow> number \<Rightarrow> bool" where
  "number_less NaN _ = False"
| "number_less _ NaN = False"
| "number_less (Finite a) (Finite b) = (a < b)"
| "number_less NegInfinity NegInfinity = False"
| "number_less NegInfinity _ = True"
| "number_less _ NegInfinity = False"
| "number_less PosInfinity _ = False"
| "number_less _ PosInfinity = True"

fun number_to_int :: "number \<Rightarrow> int" where
  "number_to_int (Finite q) = \<lfloor>q\<rfloor>"
| "number_to_int NaN = 0"
| "number_to_int PosInfinity = 0"
| "number_to_int NegInfinity = 0"

text \<open>\<^verbatim>\<open>throw new Error(message)\<close>.\<close>

datatype error = Error string

text \<open>
  \<^verbatim>\<open>private permits: number; private readonly queue: Array<() => void> = []\<close>.
  The constructor lets only integers through, so the field \<open>permits\<close> is an integer in
  every object that exists; \<^verbatim>\<open>permits++\<close> and \<^verbatim>\<open>permits--\<close> are taken as exact, which they
  are on doubles of magnitude up to \<open>2^53\<close>.
\<close>

record SemaphoreLock =
  permits :: int
  sem_queue :: "caller list"

definition SemaphoreLock_new :: "number \<Rightarrow> error + SemaphoreLock" where
  "SemaphoreLock_new p =
     (if \<not> Number_isInteger p \<or> number_less p (Finite 1)
      then Inl (Error ''maxConcurrency must be a positive integer'')
      else Inr \<lparr>permits = number_to_int p, sem_queue = []\<rparr>)"

definition SemaphoreLock_tryAcquire ::
  "caller \<Rightarrow> SemaphoreLock \<Rightarrow> SemaphoreLock \<times> caller list" where
  "SemaphoreLock_tryAcquire c l =
     (if permits l > 0 then (l\<lparr>permits := permits l - 1\<rparr>, [c])
      else (l\<lparr>sem_queue := sem_queue l @ [c]\<rparr>, []))"

definition SemaphoreLock_acquire ::
  "caller \<Rightarrow> SemaphoreLock \<Rightarrow> SemaphoreLock \<times> caller list" where
  "SemaphoreLock_acquire c l = SemaphoreLock_tryAcquire c l"

text \<open>
  \<^verbatim>\<open>release()\<close>, which every release function \<^verbatim>\<open>() => this.release()\<close> calls:
  \<^verbatim>\<open>this.permits++\<close>, then the head of the queue, if any, is taken and called.
\<close>

definition SemaphoreLock_release :: "SemaphoreLock \<Rightarrow> SemaphoreLock \<times> caller list" where
  "SemaphoreLock_release l =
     (let l1 = l\<lparr>permits := permits l + 1\<rparr> in
      if length (sem_queue l1) > 0 then
        (case sem_queue l1 of
           [] \<Rightarrow> (l1, [])
         | nxt # rest \<Rightarrow> SemaphoreLock_tryAcquire nxt (l1\<lparr>sem_queue := rest\<rparr>))
      else (l1, []))"

section \<open>ReadWriteLock (src/readWriteLock.ts)\<close>

text \<open>
  \<^verbatim>\<open>private readers = 0; private writer = false; private readQueue = []; private writeQueue = []\<close>.
  A promise of this class is resolved with one of two release functions,
  \<^verbatim>\<open>() => this.releaseRead()\<close> or \<^verbatim>\<open>() => this.releaseWrite()\<close>: a grant is the caller
  together with the function it received.
\<close>

datatype capability = ReleaseRead | ReleaseWrite

type_synonym grants = "(caller \<times> capability) list"

record ReadWriteLock =
  readers :: int
  writer :: bool
  readQueue :: "caller list"
  writeQueue :: "caller list"


text \<open>The closure \<^verbatim>\<open>tryAcquire\<close> that \<^verbatim>\<open>acquireRead()\<close> builds for caller \<open>c\<close>.\<close>

definition tryAcquireRead :: "caller \<Rightarrow> ReadWriteLock \<Rightarrow> ReadWriteLock \<times> grants" where
  "tryAcquireRead c l =
     (if \<not> writer l \<and> length (writeQueue l) = 0
      then (l\<lparr>readers := readers l + 1\<rparr>, [(c, ReleaseRead)])
      else (l\<lparr>readQueue := readQueue l @ [c]\<rparr>, []))"

definition acquireRead :: "caller \<Rightarrow> ReadWriteLock \<Rightarrow> ReadWriteLock \<times> grants" where
  "acquireRead c l = tryAcquireRead c l"

text \<open>The closure \<^verbatim>\<open>tryAcquire\<close> that \<^verbatim>\<open>acquireWrite()\<close> builds for caller \<open>c\<close>.\<close>

definition tryAcquireWrite :: "caller \<Rightarrow> ReadWriteLock \<Rightarrow> ReadWriteLock \<times> grants" where
  "tryAcquireWrite c l =
     (if \<not> writer l \<and> readers l = 0
      then (l\<lparr>writer := True\<rparr>, [(c, ReleaseWrite)])
      else (l\<lparr>writeQueue := writeQueue l @ [c]\<rparr>, []))"

definition acquireWrite :: "caller \<Rightarrow> ReadWriteLock \<Rightarrow> ReadWriteLock \<times> grants" where
  "acquireWrite c l = tryAcquireWrite c l"

definition releaseRead :: "ReadWriteLock \<Rightarrow> ReadWriteLock \<times> grants" where
  "releaseRead l =
     (let l1 = l\<lparr>readers := readers l - 1\<rparr> in
      if readers l1 = 0 \<and> length (writeQueue l1) > 0 then
        (case writeQueue l1 of
           [] \<Rightarrow> (l1, [])
         | nxt # rest \<Rightarrow> tryAcquireWrite nxt (l1\<lparr>writeQueue := rest\<rparr>))
      else (l1, []))"

text \<open>
  The loop of \<^verbatim>\<open>releaseWrite\<close>:
  \<^verbatim>\<open>while (this.readQueue.length > 0) { const next = this.readQueue.shift(); next?.(); }\<close>.
  A closure it calls may push itself back onto the queue the loop is emptying, so the
  loop is not bounded by the length of the queue: it is a partial function, and \<open>None\<close>
  is a loop that never ends. The second argument collects the grants made so far.
\<close>

partial_function (option) wakeReaders ::
  "ReadWriteLock \<Rightarrow> grants \<Rightarrow> (ReadWriteLock \<times> grants) option" where
  "wakeReaders l acc =
     (if length (readQueue l) > 0 then
        (case readQueue l of
           [] \<Rightarrow> wakeReaders l acc
         | nxt # rest \<Rightarrow>
             (case tryAcquireRead nxt (l\<lparr>readQueue := rest\<rparr>) of
                (l', g) \<Rightarrow> wakeReaders l' (acc @ g)))
      else Some (l, acc))"

definition releaseWrite :: "ReadWriteLock \<Rightarrow> (ReadWriteLock \<times> grants) option" where
  "releaseWrite l =
     (let l1 = l\<lparr>writer := False\<rparr> in
      if length (writeQueue l1) > 0 then
        (case writeQueue l1 of
           [] \<Rightarrow> Some (l1, [])
         | nxt # rest \<Rightarrow> Some (tryAcquireWrite nxt (l1\<lparr>writeQueue := rest\<rparr>)))
      else wakeReaders l1 [])"

text \<open>
  What a caller can do to a ReadWriteLock: call \<^verbatim>\<open>acquireRead()\<close> or
  \<^verbatim>\<open>acquireWrite()\<close>, or call a release function it holds. \<open>rw_apply\<close> is the effect
  on the lock's fields.
\<close>

datatype rw_event = AcquireRead caller | AcquireWrite caller | Invoke caller capability

fun rw_apply :: "rw_event \<Rightarrow> ReadWriteLock \<Rightarrow> (ReadWriteLock \<times> grants) option" where
  "rw_apply (AcquireRead c) l = Some (acquireRead c l)"
| "rw_apply (AcquireWrite c) l = Some (acquireWrite c l)"
| "rw_apply (Invoke c ReleaseRead) l = Some (releaseRead l)"
| "rw_apply (Invoke c ReleaseWrite) l = releaseWrite l"

text \<open>
  The spec's words for the accepted constructor arguments, "a positive integer": the
  number is the double of some integer \<open>k > 0\<close>.
\<close>

definition positive_integer :: "number \<Rightarrow> bool" where
  "positive_integer p = (\<exists>k::int. 0 < k \<and> p = Finite (of_int k))"

section \<open>Callers and interleavings\<close>

text \<open>
  The properties of all reachable states speak of callers: who has been granted the lock
  and has not released it yet. The lock objects keep no such record, so each lock is put
  in a system that runs a sequence of calls against it and books the grants the lock
  reports: the callers holding a release function not yet called (or, for SimpleLock,
  the callers past \<^verbatim>\<open>acquire\<close> that have not called \<^verbatim>\<open>release\<close>), and the order of all
  grants. The lock's fields change only through the functions of the sections above.

  A sequence of calls is matched when every release in it is made by a caller that holds
  the lock at that moment: a release function is called once, by the caller it was
  handed to. The classes do not check this; it is the discipline of their callers
  (\<^verbatim>\<open>try { ... } finally { release(); }\<close> in every demo).
\<close>

subsection \<open>SimpleLock\<close>








subsection \<open>QueueLock and SemaphoreLock\<close>

text \<open>
  \<open>Acquire c\<close>: a call of \<^verbatim>\<open>acquire()\<close>, named \<open>c\<close>. \<open>Release c\<close>: caller \<open>c\<close> calls
  the release function it was handed.
\<close>

datatype event = Acquire caller | Release caller

fun acquire_calls :: "event list \<Rightarrow> caller list" where
  "acquire_calls [] = []"
| "acquire_calls (Acquire c # es) = c # acquire_calls es"
| "acquire_calls (Release c # es) = acquire_calls es"


record ql_system =
  ql_lock :: QueueLock
  ql_holders :: "caller list"
  ql_granted :: "caller list"

definition ql_init :: ql_system where
  "ql_init = \<lparr>ql_lock = QueueLock_new, ql_holders = [], ql_granted = []\<rparr>"

fun ql_step :: "event \<Rightarrow> ql_system \<Rightarrow> ql_system" where
  "ql_step (Acquire c) s =
     (case QueueLock_acquire c (ql_lock s) of
        (l', g) \<Rightarrow>
          \<lparr>ql_lock = l', ql_holders = ql_holders s @ g, ql_granted = ql_granted s @ g\<rparr>)"
| "ql_step (Release c) s =
     (case QueueLock_release (ql_lock s) of
        (l', g) \<Rightarrow>
          \<lparr>ql_lock = l', ql_holders = remove1 c (ql_holders s) @ g,
           ql_granted = ql_granted s @ g\<rparr>)"


fun ql_run :: "ql_system \<Rightarrow> event list \<Rightarrow> ql_system" where
  "ql_run s [] = s"
| "ql_run s (e # es) = ql_run (ql_step e s) es"


record sem_system =
  sem_lock :: SemaphoreLock
  sem_holders :: "caller list"
  sem_granted :: "caller list"

definition sem_start :: "SemaphoreLock \<Rightarrow> sem_system" where
  "sem_start l = \<lparr>sem_lock = l, sem_holders = [], sem_granted = []\<rparr>"

fun sem_step :: "event \<Rightarrow> sem_system \<Rightarrow> sem_system" where
  "sem_step (Acquire c) s =
     (case SemaphoreLock_acquire c (sem_lock s) of
        (l', g) \<Rightarrow>
          \<lparr>sem_lock = l', sem_holders = sem_holders s @ g, sem_granted = sem_granted s @ g\<rparr>)"
| "sem_step (Release c) s =
     (case SemaphoreLock_release (sem_lock s) of
        (l', g) \<Rightarrow>
          \<lparr>sem_lock = l', sem_holders = remove1 c (sem_holders s) @ g,
           sem_granted = sem_granted s @ g\<rparr>)"


fun sem_run :: "sem_system \<Rightarrow> event list \<Rightarrow> sem_system" where
  "sem_run s [] = s"
| "sem_run s (e # es) = sem_run (sem_step e s) es"


subsection \<open>ReadWriteLock\<close>










section \<open>Properties of single operations\<close>

lemma SimpleLock_release_lock:
  "fst (SimpleLock_release c (l, out)) = l\<lparr>sl_locked := False\<rparr>"
  by (simp add: SimpleLock_release_def)

text \<open>
  Claim C8. \<^verbatim>\<open>release(threadId)\<close> of SimpleLock clears the flag whatever the state
  before and whatever the thread id: the lock it leaves is the lock it found with
  \<open>sl_locked\<close> false, for every id; the id only shows in the line printed. On a lock
  that is not held the call changes nothing of the lock and raises nothing (the function
  has no error result).
\<close>

theorem SimpleLock_release_unconditional:
  "\<not> sl_locked (fst (SimpleLock_release c (l, out)))
   \<and> fst (SimpleLock_release c (l, out)) = fst (SimpleLock_release c' (l, out))
   \<and> maxWaitTime (fst (SimpleLock_release c (l, out))) = maxWaitTime l
   \<and> snd (SimpleLock_release c (l, out)) =
       out @ [''Thread '' @ show_nat c @ '' - Released lock'']
   \<and> (\<not> sl_locked l \<longrightarrow> fst (SimpleLock_release c (l, out)) = l)"
  by (simp add: SimpleLock_release_def)

theorem SimpleLock_release_unconditional_witness:
  "\<not> sl_locked (SimpleLock_new 2000)
   \<and> fst (SimpleLock_release 4 (SimpleLock_new 2000, [])) = SimpleLock_new 2000
   \<and> \<not> sl_locked (fst (SimpleLock_release 4 (\<lparr>sl_locked = True, maxWaitTime = 2000\<rparr>, [])))
   \<and> snd (SimpleLock_release 4 (SimpleLock_new 2000, [])) = [''Thread 4 - Released lock'']"
  using SimpleLock_release_unconditional [of 4 "SimpleLock_new 2000" "[]" 4]
    SimpleLock_release_unconditional [of 4 "\<lparr>sl_locked = True, maxWaitTime = 2000\<rparr>" "[]" 4]
  by (simp add: SimpleLock_new_def show_nat.simps)


subsection \<open>The batch wake of releaseWrite\<close>

text \<open>
  Entered with no writer active and no writer queued, the loop ends: no closure it calls
  changes \<open>writer\<close> or \<open>writeQueue\<close>, so each one takes the granting branch.
\<close>

lemma wakeReaders_free:
  "\<not> writer l \<Longrightarrow> writeQueue l = [] \<Longrightarrow>
   wakeReaders l acc =
     Some (l\<lparr>readers := readers l + int (length (readQueue l)), readQueue := []\<rparr>,
           acc @ map (\<lambda>c. (c, ReleaseRead)) (readQueue l))"
proof (induction "readQueue l" arbitrary: l acc)
  case Nil
  then show ?case
    by (cases l) (simp add: wakeReaders.simps)
next
  case (Cons c cs)
  let ?l' = "l\<lparr>readQueue := cs, readers := readers l + 1\<rparr>"
  have step: "wakeReaders l acc = wakeReaders ?l' (acc @ [(c, ReleaseRead)])"
    using Cons.hyps(2) [symmetric] Cons.prems
    by (subst wakeReaders.simps) (simp add: tryAcquireRead_def)
  have "cs = readQueue ?l'" "\<not> writer ?l'" "writeQueue ?l' = []"
    using Cons.prems by simp_all
  from Cons.hyps(1) [OF this, of "acc @ [(c, ReleaseRead)]"] step Cons.hyps(2) [symmetric]
  show ?case
    by (cases l) simp
qed

lemma releaseWrite_no_writer_queued:
  "writeQueue l = [] \<Longrightarrow>
   releaseWrite l =
     Some (l\<lparr>writer := False,
             readers := readers l + int (length (readQueue l)),
             readQueue := []\<rparr>,
           map (\<lambda>c. (c, ReleaseRead)) (readQueue l))"
  by (simp add: releaseWrite_def wakeReaders_free)

lemma releaseWrite_writer_queued:
  "writeQueue l = w # ws \<Longrightarrow>
   releaseWrite l = Some (tryAcquireWrite w (l\<lparr>writer := False, writeQueue := ws\<rparr>))"
  by (simp add: releaseWrite_def)

lemma releaseWrite_total: "\<exists>l' g. releaseWrite l = Some (l', g)"
proof (cases "writeQueue l")
  case Nil
  then show ?thesis by (simp add: releaseWrite_no_writer_queued)
next
  case (Cons w ws)
  then show ?thesis
    by (cases "tryAcquireWrite w (l\<lparr>writer := False, writeQueue := ws\<rparr>)")
       (simp add: releaseWrite_writer_queued)
qed

lemma rw_apply_total: "\<exists>l' g. rw_apply e l = Some (l', g)"
proof (cases e)
  case (AcquireRead c)
  then show ?thesis by (cases "acquireRead c l") simp
next
  case (AcquireWrite c)
  then show ?thesis by (cases "acquireWrite c l") simp
next
  case (Invoke c cap)
  then show ?thesis
    by (cases cap; cases "releaseRead l") (simp_all add: releaseWrite_total)
qed

text \<open>
  Claim C10. A write release found with an empty write queue grants every queued reader
  in that one call: it returns (the loop ends), the read queue is empty afterwards,
  \<open>writer\<close> is false, \<open>readers\<close> has grown by the number of readers that were queued,
  and each of them, in queue order, has received a read release function.
\<close>

theorem releaseWrite_batch_grants_all:
  "writeQueue l = [] \<Longrightarrow>
   releaseWrite l =
     Some (l\<lparr>writer := False,
             readers := readers l + int (length (readQueue l)),
             readQueue := []\<rparr>,
           map (\<lambda>c. (c, ReleaseRead)) (readQueue l))"
  by (rule releaseWrite_no_writer_queued)

theorem releaseWrite_batch_grants_all_witness:
  "writeQueue \<lparr>readers = 0, writer = True, readQueue = [7, 8, 9], writeQueue = []\<rparr> = []
   \<and> releaseWrite \<lparr>readers = 0, writer = True, readQueue = [7, 8, 9], writeQueue = []\<rparr> =
       Some (\<lparr>readers = 3, writer = False, readQueue = [], writeQueue = []\<rparr>,
             [(7, ReleaseRead), (8, ReleaseRead), (9, ReleaseRead)])"
  using releaseWrite_batch_grants_all
    [of "\<lparr>readers = 0, writer = True, readQueue = [7, 8, 9], writeQueue = []\<rparr>"]
  by simp


subsection \<open>The constructor of SemaphoreLock\<close>

lemma positive_integer_Finite:
  "positive_integer (Finite q) \<longleftrightarrow> of_int \<lfloor>q\<rfloor> = q \<and> \<not> q < 1"
proof
  assume "positive_integer (Finite q)"
  then obtain k :: int where k: "0 < k" "q = of_int k"
    by (auto simp: positive_integer_def)
  then show "of_int \<lfloor>q\<rfloor> = q \<and> \<not> q < 1" by simp
next
  assume a: "of_int \<lfloor>q\<rfloor> = q \<and> \<not> q < 1"
  then have "0 < \<lfloor>q\<rfloor>" by linarith
  with a show "positive_integer (Finite q)"
    unfolding positive_integer_def by (metis)
qed

lemma SemaphoreLock_new_cases:
  "SemaphoreLock_new p =
     (if positive_integer p then Inr \<lparr>permits = number_to_int p, sem_queue = []\<rparr>
      else Inl (Error ''maxConcurrency must be a positive integer''))"
  by (cases p) (auto simp: SemaphoreLock_new_def positive_integer_Finite, auto simp: positive_integer_def)

text \<open>
  Claim C7. \<^verbatim>\<open>new SemaphoreLock(p)\<close> throws exactly when \<open>p\<close> is not a positive
  integer (the spec's InvalidConfiguration is the one \<^verbatim>\<open>Error\<close> the class throws, with the
  message below), and otherwise builds a semaphore with \<open>p\<close> permits and an empty queue.
  The arguments 0, -1 and 2.5 are refused and 3 is accepted.
\<close>

theorem SemaphoreLock_new_validates:
  "(SemaphoreLock_new p = Inl (Error ''maxConcurrency must be a positive integer''))
     = (\<not> positive_integer p)
   \<and> (\<exists>l. SemaphoreLock_new p = Inr l) = positive_integer p
   \<and> (0 < k \<longrightarrow> SemaphoreLock_new (Finite (of_int k)) = Inr \<lparr>permits = k, sem_queue = []\<rparr>)
   \<and> SemaphoreLock_new (Finite 0) = Inl (Error ''maxConcurrency must be a positive integer'')
   \<and> SemaphoreLock_new (Finite (- 1)) = Inl (Error ''maxConcurrency must be a positive integer'')
   \<and> SemaphoreLock_new (Finite (5 / 2)) = Inl (Error ''maxConcurrency must be a positive integer'')
   \<and> SemaphoreLock_new (Finite 3) = Inr \<lparr>permits = 3, sem_queue = []\<rparr>"
proof -
  have a: "(SemaphoreLock_new p = Inl (Error ''maxConcurrency must be a positive integer''))
     = (\<not> positive_integer p)"
    by (simp add: SemaphoreLock_new_cases)
  have b: "(\<exists>l. SemaphoreLock_new p = Inr l) = positive_integer p"
    by (simp add: SemaphoreLock_new_cases)
  have c: "0 < k \<longrightarrow> SemaphoreLock_new (Finite (of_int k)) = Inr \<lparr>permits = k, sem_queue = []\<rparr>"
    by (simp add: SemaphoreLock_new_def)
  have d: "SemaphoreLock_new (Finite 0) = Inl (Error ''maxConcurrency must be a positive integer'')"
    by (simp add: SemaphoreLock_new_def)
  have e: "SemaphoreLock_new (Finite (- 1)) = Inl (Error ''maxConcurrency must be a positive integer'')"
    by (simp add: SemaphoreLock_new_def)
  have f: "SemaphoreLock_new (Finite (5 / 2)) = Inl (Error ''maxConcurrency must be a positive integer'')"
  proof -
    have "\<lfloor>5 / 2 :: rat\<rfloor> = 2" by (rule floor_unique) simp_all
    then show ?thesis by (simp add: SemaphoreLock_new_def)
  qed
  have g: "SemaphoreLock_new (Finite 3) = Inr \<lparr>permits = 3, sem_queue = []\<rparr>"
    by (simp add: SemaphoreLock_new_def)
  from a b c d e f g show ?thesis by blast
qed

theorem SemaphoreLock_new_validates_witness:
  "positive_integer (Finite 3) \<and> \<not> positive_integer (Finite (5 / 2))
   \<and> \<not> positive_integer NaN
   \<and> SemaphoreLock_new NaN = Inl (Error ''maxConcurrency must be a positive integer'')
   \<and> SemaphoreLock_new (Finite (of_int 3)) = Inr \<lparr>permits = 3, sem_queue = []\<rparr>"
  using SemaphoreLock_new_validates [of "Finite 3" 3] SemaphoreLock_new_validates [of "Finite (5 / 2)" 3]
   SemaphoreLock_new_validates [of NaN 3]
  by (simp add: SemaphoreLock_new_def)

subsection \<open>Read acquisition and write release\<close>

lemma acquireRead_cases:
  "acquireRead c l =
     (if \<not> writer l \<and> writeQueue l = []
      then (l\<lparr>readers := readers l + 1\<rparr>, [(c, ReleaseRead)])
      else (l\<lparr>readQueue := readQueue l @ [c]\<rparr>, []))"
  by (simp add: acquireRead_def tryAcquireRead_def)

lemma tryAcquireWrite_grants:
  "(c, ReleaseRead) \<notin> set (snd (tryAcquireWrite w l))"
  by (simp add: tryAcquireWrite_def)

lemma read_grant_no_writer:
  assumes "rw_apply e l = Some (l', g)" and "(c, ReleaseRead) \<in> set g"
  shows "\<not> writer l' \<and> writeQueue l' = []"
proof (cases e)
  case (AcquireRead a)
  with assms show ?thesis
    by (auto simp: acquireRead_cases split: if_splits)
next
  case (AcquireWrite a)
  with assms show ?thesis
    by (auto simp: acquireWrite_def tryAcquireWrite_def split: if_splits)
next
  case (Invoke a cap)
  show ?thesis
  proof (cases cap)
    case ReleaseRead
    with Invoke assms show ?thesis
      by (auto simp: releaseRead_def Let_def tryAcquireWrite_def split: if_splits list.splits)
  next
    case ReleaseWrite
    show ?thesis
    proof (cases "writeQueue l")
      case Nil
      with Invoke ReleaseWrite assms show ?thesis
        by (auto simp: releaseWrite_no_writer_queued)
    next
      case (Cons w ws)
      with Invoke ReleaseWrite assms show ?thesis
        by (auto simp: releaseWrite_writer_queued tryAcquireWrite_def split: if_splits)
    qed
  qed
qed


text \<open>
  Claim C5. \<^verbatim>\<open>acquireRead()\<close> grants at once (one more reader, the promise resolved with
  a read release function) if and only if no writer is active and the write queue is
  empty; in every other case it changes nothing but the read queue, to which the caller
  is appended. A reader is never admitted past a writer: whatever operation resolves a
  reader's promise, from whatever state, leaves the lock with no writer active and no
  writer queued.
\<close>

theorem acquireRead_grants_iff:
  "acquireRead c l =
     (if \<not> writer l \<and> writeQueue l = []
      then (l\<lparr>readers := readers l + 1\<rparr>, [(c, ReleaseRead)])
      else (l\<lparr>readQueue := readQueue l @ [c]\<rparr>, []))
   \<and> (snd (acquireRead c l) = [(c, ReleaseRead)]) = (\<not> writer l \<and> writeQueue l = [])
   \<and> (\<forall>e l' g r. rw_apply e l = Some (l', g) \<and> (r, ReleaseRead) \<in> set g
          \<longrightarrow> \<not> writer l' \<and> writeQueue l' = [])"
proof -
  have "(snd (acquireRead c l) = [(c, ReleaseRead)]) = (\<not> writer l \<and> writeQueue l = [])"
    by (simp add: acquireRead_cases)
  moreover have "\<forall>e l' g r. rw_apply e l = Some (l', g) \<and> (r, ReleaseRead) \<in> set g
          \<longrightarrow> \<not> writer l' \<and> writeQueue l' = []"
    using read_grant_no_writer by blast
  ultimately show ?thesis
    using acquireRead_cases by blast
qed

theorem acquireRead_grants_iff_witness:
  "acquireRead 3 \<lparr>readers = 2, writer = False, readQueue = [], writeQueue = [5]\<rparr> =
     (\<lparr>readers = 2, writer = False, readQueue = [3], writeQueue = [5]\<rparr>, [])
   \<and> acquireRead 3 \<lparr>readers = 2, writer = False, readQueue = [], writeQueue = []\<rparr> =
     (\<lparr>readers = 3, writer = False, readQueue = [], writeQueue = []\<rparr>, [(3, ReleaseRead)])
   \<and> rw_apply (AcquireRead 3) \<lparr>readers = 2, writer = False, readQueue = [], writeQueue = []\<rparr> =
       Some (\<lparr>readers = 3, writer = False, readQueue = [], writeQueue = []\<rparr>, [(3, ReleaseRead)])
   \<and> (3, ReleaseRead) \<in> set [(3 :: nat, ReleaseRead)]
   \<and> \<not> writer \<lparr>readers = 3, writer = False, readQueue = [], writeQueue = []\<rparr>
   \<and> writeQueue \<lparr>readers = 3, writer = False, readQueue = [], writeQueue = []\<rparr> = []"
  using acquireRead_grants_iff
      [of 3 "\<lparr>readers = 2, writer = False, readQueue = [], writeQueue = [5]\<rparr>"]
    acquireRead_grants_iff
      [of 3 "\<lparr>readers = 2, writer = False, readQueue = [], writeQueue = []\<rparr>"]
  by simp




section \<open>Properties of all reachable states\<close>

subsection \<open>Mutual exclusion\<close>








text \<open>
  The hypothesis of a matched interleaving is needed. The release function of QueueLock
  has no guard against a second call: called again by caller 1 after the lock has passed
  to caller 2, it hands the lock to caller 3 as well. The spec lists the second call of a
  release function as unguarded misuse, the responsibility of the caller.
\<close>

lemma QueueLock_second_release:
  "ql_holders (ql_run ql_init [Acquire 1, Acquire 2, Acquire 3, Release 1, Release 1]) = [2, 3]"
  by (simp add: ql_init_def QueueLock_new_def QueueLock_acquire_def QueueLock_tryAcquire_def
        QueueLock_release_def)


subsection \<open>Queues and grant order\<close>

lemma ql_step_fifo:
  assumes "\<not> ql_locked (ql_lock s) \<longrightarrow> ql_queue (ql_lock s) = []"
  shows "(\<not> ql_locked (ql_lock (ql_step e s)) \<longrightarrow> ql_queue (ql_lock (ql_step e s)) = [])
    \<and> ql_granted (ql_step e s) @ ql_queue (ql_lock (ql_step e s)) =
        ql_granted s @ ql_queue (ql_lock s) @ acquire_calls [e]"
proof (cases e)
  case (Acquire c)
  with assms show ?thesis
    by (simp add: QueueLock_acquire_def QueueLock_tryAcquire_def)
next
  case (Release c)
  with assms show ?thesis
    by (simp add: QueueLock_release_def QueueLock_tryAcquire_def Let_def split: list.splits)
qed

lemma acquire_calls_Cons: "acquire_calls (e # es) = acquire_calls [e] @ acquire_calls es"
  by (cases e) simp_all


lemma ql_run_fifo:
  "\<not> ql_locked (ql_lock s) \<longrightarrow> ql_queue (ql_lock s) = [] \<Longrightarrow>
   ql_granted (ql_run s evs) @ ql_queue (ql_lock (ql_run s evs)) =
     ql_granted s @ ql_queue (ql_lock s) @ acquire_calls evs"
proof (induction evs arbitrary: s)
  case Nil
  then show ?case by simp
next
  case (Cons e evs)
  from ql_step_fifo [OF Cons.prems, of e] Cons.IH [of "ql_step e s"]
  show ?case
    by (simp add: acquire_calls_Cons [of e evs])
qed

lemma sem_step_base:
  assumes "0 \<le> permits (sem_lock s)"
    and "0 < permits (sem_lock s) \<longrightarrow> sem_queue (sem_lock s) = []"
  shows "0 \<le> permits (sem_lock (sem_step e s))
    \<and> (0 < permits (sem_lock (sem_step e s)) \<longrightarrow> sem_queue (sem_lock (sem_step e s)) = [])
    \<and> sem_granted (sem_step e s) @ sem_queue (sem_lock (sem_step e s)) =
        sem_granted s @ sem_queue (sem_lock s) @ acquire_calls [e]"
proof (cases e)
  case (Acquire c)
  with assms show ?thesis
    by (simp add: SemaphoreLock_acquire_def SemaphoreLock_tryAcquire_def)
next
  case (Release c)
  with assms show ?thesis
    by (auto simp: SemaphoreLock_release_def SemaphoreLock_tryAcquire_def Let_def
          split: list.splits)
qed

lemma sem_run_base:
  "0 \<le> permits (sem_lock s) \<Longrightarrow>
   0 < permits (sem_lock s) \<longrightarrow> sem_queue (sem_lock s) = [] \<Longrightarrow>
   0 \<le> permits (sem_lock (sem_run s evs))
    \<and> (0 < permits (sem_lock (sem_run s evs)) \<longrightarrow> sem_queue (sem_lock (sem_run s evs)) = [])
    \<and> sem_granted (sem_run s evs) @ sem_queue (sem_lock (sem_run s evs)) =
        sem_granted s @ sem_queue (sem_lock s) @ acquire_calls evs"
proof (induction evs arbitrary: s)
  case Nil
  then show ?case by simp
next
  case (Cons e evs)
  from sem_step_base [OF Cons.prems, of e]
  have st: "0 \<le> permits (sem_lock (sem_step e s))"
    "0 < permits (sem_lock (sem_step e s)) \<longrightarrow> sem_queue (sem_lock (sem_step e s)) = []"
    "sem_granted (sem_step e s) @ sem_queue (sem_lock (sem_step e s)) =
        sem_granted s @ sem_queue (sem_lock s) @ acquire_calls [e]"
    by simp_all
  from Cons.IH [OF st(1) st(2)] st(3) show ?case
    by (simp add: acquire_calls_Cons [of e evs])
qed

lemma SemaphoreLock_new_Inr:
  "SemaphoreLock_new p = Inr l \<Longrightarrow>
   0 < permits l \<and> sem_queue l = [] \<and> p = Finite (of_int (permits l))"
  by (cases p) (auto simp: SemaphoreLock_new_def split: if_splits)

text \<open>
  Claim C2. For QueueLock and for SemaphoreLock, the grants occur in exactly the order
  of the \<^verbatim>\<open>acquire()\<close> calls: after any sequence of calls, the callers granted so far,
  in grant order, followed by the callers still queued, in queue order, are the callers
  of \<^verbatim>\<open>acquire()\<close> in call order. The n-th grant goes to the n-th call; so of two
  callers, the one that called first is granted first, whether or not they had to wait.
  This holds for every sequence of calls, matched or not.
\<close>

theorem fifo_grant_order:
  "ql_granted (ql_run ql_init evs) @ ql_queue (ql_lock (ql_run ql_init evs)) = acquire_calls evs
   \<and> (\<forall>n < length (ql_granted (ql_run ql_init evs)).
         ql_granted (ql_run ql_init evs) ! n = acquire_calls evs ! n)
   \<and> (SemaphoreLock_new p = Inr l0 \<longrightarrow>
        sem_granted (sem_run (sem_start l0) evs') @ sem_queue (sem_lock (sem_run (sem_start l0) evs'))
          = acquire_calls evs'
        \<and> (\<forall>n < length (sem_granted (sem_run (sem_start l0) evs')).
              sem_granted (sem_run (sem_start l0) evs') ! n = acquire_calls evs' ! n))"
proof -
  have q: "ql_granted (ql_run ql_init evs) @ ql_queue (ql_lock (ql_run ql_init evs))
      = acquire_calls evs"
    using ql_run_fifo [of ql_init evs] by (simp add: ql_init_def QueueLock_new_def)
  have qn: "\<forall>n < length (ql_granted (ql_run ql_init evs)).
         ql_granted (ql_run ql_init evs) ! n = acquire_calls evs ! n"
    using q by (metis nth_append)
  have s: "sem_granted (sem_run (sem_start l0) evs') @ sem_queue (sem_lock (sem_run (sem_start l0) evs'))
          = acquire_calls evs'" if "SemaphoreLock_new p = Inr l0"
    using sem_run_base [of "sem_start l0" evs'] SemaphoreLock_new_Inr [OF that]
    by (simp add: sem_start_def)
  have sn: "\<forall>n < length (sem_granted (sem_run (sem_start l0) evs')).
              sem_granted (sem_run (sem_start l0) evs') ! n = acquire_calls evs' ! n"
    if "SemaphoreLock_new p = Inr l0"
    using s [OF that] by (metis nth_append)
  from q qn s sn show ?thesis by blast
qed

theorem fifo_grant_order_witness:
  "ql_granted (ql_run ql_init [Acquire 1, Acquire 2, Acquire 3, Release 1, Acquire 4, Release 2])
     = [1, 2, 3]
   \<and> ql_queue (ql_lock (ql_run ql_init
        [Acquire 1, Acquire 2, Acquire 3, Release 1, Acquire 4, Release 2])) = [4]
   \<and> SemaphoreLock_new (Finite 2) = Inr \<lparr>permits = 2, sem_queue = []\<rparr>
   \<and> sem_granted (sem_run (sem_start \<lparr>permits = 2, sem_queue = []\<rparr>)
        [Acquire 1, Acquire 2, Acquire 3, Acquire 4, Release 2, Acquire 5, Release 1])
     = [1, 2, 3, 4]
   \<and> sem_queue (sem_lock (sem_run (sem_start \<lparr>permits = 2, sem_queue = []\<rparr>)
        [Acquire 1, Acquire 2, Acquire 3, Acquire 4, Release 2, Acquire 5, Release 1])) = [5]"
  using fifo_grant_order
    [of "[Acquire 1, Acquire 2, Acquire 3, Release 1, Acquire 4, Release 2]" "Finite 2"
        "\<lparr>permits = 2, sem_queue = []\<rparr>"
        "[Acquire 1, Acquire 2, Acquire 3, Acquire 4, Release 2, Acquire 5, Release 1]"]
  by (simp add: ql_init_def QueueLock_new_def QueueLock_acquire_def QueueLock_tryAcquire_def
        QueueLock_release_def SemaphoreLock_new_def sem_start_def SemaphoreLock_acquire_def
        SemaphoreLock_tryAcquire_def SemaphoreLock_release_def)

text \<open>
  Claim C9. Between the operations of a SemaphoreLock built by its constructor, a
  permit is available only when nobody waits: \<open>permits > 0\<close> implies an empty queue,
  and a non-empty queue implies \<open>permits = 0\<close>. This holds after every sequence of
  calls, the matched ones among them.
\<close>

theorem semaphore_waiters_imply_no_permits:
  "SemaphoreLock_new p = Inr l0 \<Longrightarrow>
   (0 < permits (sem_lock (sem_run (sem_start l0) evs))
      \<longrightarrow> sem_queue (sem_lock (sem_run (sem_start l0) evs)) = [])
   \<and> (sem_queue (sem_lock (sem_run (sem_start l0) evs)) \<noteq> []
      \<longrightarrow> permits (sem_lock (sem_run (sem_start l0) evs)) = 0)"
proof -
  assume "SemaphoreLock_new p = Inr l0"
  from SemaphoreLock_new_Inr [OF this] sem_run_base [of "sem_start l0" evs]
  have "0 \<le> permits (sem_lock (sem_run (sem_start l0) evs))"
    "0 < permits (sem_lock (sem_run (sem_start l0) evs))
      \<longrightarrow> sem_queue (sem_lock (sem_run (sem_start l0) evs)) = []"
    by (simp_all add: sem_start_def)
  then show ?thesis by force
qed

theorem semaphore_waiters_imply_no_permits_witness:
  "SemaphoreLock_new (Finite 3) = Inr \<lparr>permits = 3, sem_queue = []\<rparr>
   \<and> sem_queue (sem_lock (sem_run (sem_start \<lparr>permits = 3, sem_queue = []\<rparr>)
        [Acquire 1, Acquire 2, Acquire 3, Acquire 4])) = [4]
   \<and> permits (sem_lock (sem_run (sem_start \<lparr>permits = 3, sem_queue = []\<rparr>)
        [Acquire 1, Acquire 2, Acquire 3, Acquire 4])) = 0
   \<and> 0 < permits (sem_lock (sem_run (sem_start \<lparr>permits = 3, sem_queue = []\<rparr>)
        [Acquire 1, Acquire 2, Release 1]))
   \<and> sem_queue (sem_lock (sem_run (sem_start \<lparr>permits = 3, sem_queue = []\<rparr>)
        [Acquire 1, Acquire 2, Release 1])) = []"
  using semaphore_waiters_imply_no_permits
      [of "Finite 3" "\<lparr>permits = 3, sem_queue = []\<rparr>" "[Acquire 1, Acquire 2, Acquire 3, Acquire 4]"]
    semaphore_waiters_imply_no_permits
      [of "Finite 3" "\<lparr>permits = 3, sem_queue = []\<rparr>" "[Acquire 1, Acquire 2, Release 1]"]
  by (simp add: SemaphoreLock_new_def sem_start_def SemaphoreLock_acquire_def
        SemaphoreLock_tryAcquire_def SemaphoreLock_release_def)


subsection \<open>Permit accounting\<close>








text \<open>
  \<^verbatim>\<open>new SemaphoreLock(3)\<close>: three callers are granted at once, the fourth waits until
  one of them calls its release function.
\<close>

lemma SemaphoreLock_fourth_waits:
  "sem_holders (sem_run (sem_start \<lparr>permits = 3, sem_queue = []\<rparr>)
        [Acquire 1, Acquire 2, Acquire 3, Acquire 4]) = [1, 2, 3]
   \<and> sem_queue (sem_lock (sem_run (sem_start \<lparr>permits = 3, sem_queue = []\<rparr>)
        [Acquire 1, Acquire 2, Acquire 3, Acquire 4])) = [4]
   \<and> sem_holders (sem_run (sem_start \<lparr>permits = 3, sem_queue = []\<rparr>)
        [Acquire 1, Acquire 2, Acquire 3, Acquire 4, Release 2]) = [1, 3, 4]"
   by (simp add: SemaphoreLock_new_def sem_start_def SemaphoreLock_acquire_def
        SemaphoreLock_tryAcquire_def SemaphoreLock_release_def)


subsection \<open>Readers and writers\<close>












text \<open>
  Here too the discipline of the callers is needed: \<^verbatim>\<open>releaseRead()\<close> has no guard, and
  called while a writer is active (by a caller that holds no read release function) it
  leaves a negative reader count beside the active writer.
\<close>

lemma releaseRead_unmatched:
  "releaseRead \<lparr>readers = 0, writer = True, readQueue = [], writeQueue = []\<rparr> =
     (\<lparr>readers = - 1, writer = True, readQueue = [], writeQueue = []\<rparr>, [])"
  by (simp add: releaseRead_def)

end
